theory Spec2Isabelle
  imports Complex_Main "HOL-Library.Sublist"
begin

section \<open>Page objects over a browser host: exceptions, clock and call log\<close>

text \<open>
  The page objects of the suite (\<open>BasePage\<close>, \<open>PortalPage\<close>, \<open>DashboardPage\<close>,
  \<open>LoginPage\<close>, \<open>EllucianLoginPage\<close>, \<open>RequirementsPage\<close>,
  \<open>InternationalStudentPage\<close>) are thin asynchronous wrappers around a browser
  automation library. Every \<open>await\<close> on the library may reject; a rejected promise is an
  exception of the surrounding \<open>async\<close> function. The embedding makes this explicit:
  an operation is a function from the world before the call to a result
  (\<open>Inl\<close> an exception, \<open>Inr\<close> a value) and the world after it.

  The world holds what the operations can observe or change from the outside: a clock
  in milliseconds (\<open>Date.now()\<close>), the number of element queries answered so far (the
  document may change between two queries), and the log of effectful library calls.
  What the browser answers is a parameter, the record \<open>page\<close>.
\<close>

datatype error =
    TimeoutError | TargetClosedError | DetachedError | TypeError | SyntaxError
  | ConfigurationMissing string

datatype call =
    Sleep rat
  | Shot string
  | Scroll nat
  | Click nat
  | ForceClick nat
  | ScriptClick nat
  | Dispatch nat
  | IconScript nat
  | Highlight nat
  | Script string
  | Goto string
  | Fill string string
  | ClickSelector string

record world =
  clock :: rat
  queries :: nat
  calls :: "call list"

type_synonym 'a prog = "world \<Rightarrow> (error + 'a) \<times> world"

definition ret :: "'a \<Rightarrow> 'a prog" where
  "ret v = (\<lambda>s. (Inr v, s))"


definition bind :: "'a prog \<Rightarrow> ('a \<Rightarrow> 'b prog) \<Rightarrow> 'b prog" where
  "bind m f = (\<lambda>s. case m s of (Inl e, s') \<Rightarrow> (Inl e, s') | (Inr v, s') \<Rightarrow> f v s')"

definition seq :: "'a prog \<Rightarrow> 'b prog \<Rightarrow> 'b prog" where
  "seq m n = bind m (\<lambda>_. n)"

definition try_catch :: "'a prog \<Rightarrow> (error \<Rightarrow> 'a prog) \<Rightarrow> 'a prog" where
  "try_catch m handler = (\<lambda>s. case m s of (Inl e, s') \<Rightarrow> handler e s' | (Inr v, s') \<Rightarrow> (Inr v, s'))"

definition advance :: "rat \<Rightarrow> world \<Rightarrow> world" where
  "advance d s = s\<lparr>clock := clock s + max 0 d\<rparr>"

definition record_call :: "call \<Rightarrow> world \<Rightarrow> world" where
  "record_call c s = s\<lparr>calls := c # calls s\<rparr>"

definition no_throw :: "'a prog \<Rightarrow> bool" where
  "no_throw m = (\<forall>s. \<exists>v. fst (m s) = Inr v)"

subsection \<open>Strings\<close>

text \<open>
  \<open>String.prototype.includes\<close> is the substring test. \<open>toLowerCase\<close>, \<open>trim\<close> and
  \<open>replace(/\s+/g, '-')\<close> depend on the Unicode tables of the JavaScript runtime, which
  are no part of the repository: the page objects are modelled for any such functions
  (the fields \<open>toLowerCase\<close>, \<open>trim\<close> and \<open>dashed\<close> of the environment below).
  The functions \<open>ascii_...\<close> are what they do on ASCII text; the sample pages use them.
\<close>

fun str_includes :: "string \<Rightarrow> string \<Rightarrow> bool" where
  "str_includes [] t = (t = [])"
| "str_includes (x # xs) t = (prefix t (x # xs) \<or> str_includes xs t)"

definition toLowerChar :: "char \<Rightarrow> char" where
  "toLowerChar c = (let n = (of_char c :: nat) in if 65 \<le> n \<and> n \<le> 90 then char_of (n + 32) else c)"

definition ascii_toLowerCase :: "string \<Rightarrow> string" where
  "ascii_toLowerCase s = map toLowerChar s"

definition is_space :: "char \<Rightarrow> bool" where
  "is_space c = ((of_char c :: nat) \<in> {9, 10, 11, 12, 13, 32})"

definition ascii_trim :: "string \<Rightarrow> string" where
  "ascii_trim s = rev (dropWhile is_space (rev (dropWhile is_space s)))"

fun dash_runs :: "bool \<Rightarrow> string \<Rightarrow> string" where
  "dash_runs in_run [] = []"
| "dash_runs in_run (c # cs) =
     (if is_space c then (if in_run then dash_runs True cs else CHR ''-'' # dash_runs True cs)
      else c # dash_runs False cs)"

definition ascii_dashed :: "string \<Rightarrow> string" where
  "ascii_dashed s = dash_runs False s"

subsection \<open>Elements and the page\<close>

text \<open>
  What an element handle answers: \<open>textContent()\<close> (a rejection, \<open>null\<close> or a
  string), \<open>getAttribute(name)\<close> for the attributes listed in \<open>attrs\<close> (no entry:
  \<open>null\<close>), \<open>isVisible()\<close>, \<open>scrollIntoViewIfNeeded()\<close>, \<open>click()\<close>,
  \<open>click({force: true})\<close>, whether the node has a \<open>click\<close> method (an SVG node has
  none), and the outcome of the scripts the page objects evaluate on it. An element has a
  position \<open>eid\<close> in the document and answers \<open>$$(selector)\<close> for the selectors listed
  in \<open>sub\<close> (no entry: no match).
\<close>

record answers =
  textContent :: "error + string option"
  attrs :: "(string \<times> (error + string option)) list"
  isVisible :: "error + bool"
  scroll_fault :: "error option"
  click_fault :: "error option"
  force_click_fault :: "error option"
  has_click_method :: bool
  script_fault :: "error option"
  dispatch_fault :: "error option"
  highlight_fault :: "error option"
  icon_script :: "error + bool"

datatype element = Element (eid: nat) (ans: answers) (sub: "(string \<times> (error + element list)) list")

text \<open>
  The environment of a page object: what the browser answers for its page, the string
  functions of the JavaScript runtime, and the time at which the test runner's timeout
  closes the page (\<open>playwright.config.js\<close> sets 300000 ms, the tests 120000 to 300000).
  \<open>evaluate_script\<close> answers the scripts evaluated on the whole document, by a name
  given to each; \<open>checked\<close>, \<open>selector_visible\<close> and \<open>selector_text\<close> answer
  \<open>page.$eval(selector, el => el.checked)\<close>, \<open>page.isVisible(selector)\<close> and
  \<open>page.textContent(selector)\<close>.
\<close>

record page =
  pid :: nat
  toLowerCase :: "string \<Rightarrow> string"
  trim :: "string \<Rightarrow> string"
  dashed :: "string \<Rightarrow> string"
  runner_closes_at :: rat
  waitForTimeout_fault :: "error option"
  screenshot_fault :: "error option"
  loadState_after :: "string \<Rightarrow> rat option"
  selector_after :: "string \<Rightarrow> rat option"
  query_all :: "string \<Rightarrow> nat \<Rightarrow> error + element list"
  getByText_regex :: "string \<Rightarrow> error + element list"
  getByRole_button :: "string \<Rightarrow> error + element list"
  getByRole_button_has :: "string option \<Rightarrow> element \<Rightarrow> error + element list"
  evaluate_script :: "string \<Rightarrow> error + bool"
  checked :: "string \<Rightarrow> error + bool"
  selector_visible :: "string \<Rightarrow> error + bool"
  selector_text :: "string \<Rightarrow> error + string option"
  goto_fault :: "string \<Rightarrow> error option"
  fill_fault :: "string \<Rightarrow> error option"
  click_selector_fault :: "string \<Rightarrow> error option"
  title :: "error + string"
  innerText :: "error + string"

text \<open>
  \<open>page.waitForTimeout(ms)\<close>: the call is logged with the duration asked for; the clock
  advances by it unless the library rejects the call.
\<close>

definition page_waitForTimeout :: "page \<Rightarrow> rat \<Rightarrow> unit prog" where
  "page_waitForTimeout h ms = (\<lambda>s.
     case waitForTimeout_fault h of
       Some e \<Rightarrow> (Inl e, record_call (Sleep ms) s)
     | None \<Rightarrow> (Inr (), advance ms (record_call (Sleep ms) s)))"

text \<open>
  A wait on a condition that becomes true \<open>d\<close> ms after the call (\<open>None\<close>: never), with
  a timeout: it returns after \<open>d\<close> ms when that is within the timeout, and rejects with a
  \<open>TimeoutError\<close> after the timeout otherwise. This is \<open>page.waitForSelector\<close> and
  \<open>page.waitForLoadState\<close> for the positive timeouts the page objects pass.
\<close>

definition await_within :: "rat option \<Rightarrow> rat \<Rightarrow> unit prog" where
  "await_within arrival timeout = (\<lambda>s.
     case arrival of
       Some d \<Rightarrow> if d \<le> timeout then (Inr (), advance d s) else (Inl TimeoutError, advance timeout s)
     | None \<Rightarrow> (Inl TimeoutError, advance timeout s))"

definition page_waitForSelector :: "page \<Rightarrow> string \<Rightarrow> rat \<Rightarrow> unit prog" where
  "page_waitForSelector h selector timeout = await_within (selector_after h selector) timeout"

definition page_waitForLoadState :: "page \<Rightarrow> string \<Rightarrow> rat \<Rightarrow> unit prog" where
  "page_waitForLoadState h state timeout = await_within (loadState_after h state) timeout"

definition page_screenshot :: "page \<Rightarrow> string \<Rightarrow> unit prog" where
  "page_screenshot h path = (\<lambda>s.
     case screenshot_fault h of
       Some e \<Rightarrow> (Inl e, s)
     | None \<Rightarrow> (Inr (), record_call (Shot path) s))"

text \<open>\<open>page.$$(selector)\<close>: the answer to the next query of the document.\<close>

definition page_query_all :: "page \<Rightarrow> string \<Rightarrow> element list prog" where
  "page_query_all h selector = (\<lambda>s. (query_all h selector (queries s), s\<lparr>queries := queries s + 1\<rparr>))"

definition of_answer :: "error + 'a \<Rightarrow> 'a prog" where
  "of_answer a = (\<lambda>s. (a, s))"

subsection \<open>BasePage\<close>


definition waitForLoadState :: "page \<Rightarrow> string \<Rightarrow> rat \<Rightarrow> bool prog" where
  "waitForLoadState h state timeout =
     try_catch (seq (page_waitForLoadState h state timeout) (ret True)) (\<lambda>error. ret False)"

definition takeScreenshot :: "page \<Rightarrow> string \<Rightarrow> unit prog" where
  "takeScreenshot h path = try_catch (page_screenshot h path) (\<lambda>error. ret ())"

definition wait :: "page \<Rightarrow> rat \<Rightarrow> unit prog" where
  "wait h ms =
     try_catch (let safeMs = min ms 5000 in page_waitForTimeout h safeMs) (\<lambda>error. ret ())"



subsection \<open>RequirementsPage\<close>

definition waitOnRequirementsPage :: "page \<Rightarrow> rat \<Rightarrow> unit prog" where
  "waitOnRequirementsPage h seconds = wait h (seconds * 1000)"

subsection \<open>Waiting for the card count to settle\<close>

text \<open>The loop variables of both stabilization loops.\<close>

record count_vars =
  previousCardCount :: nat
  currentCardCount :: nat
  stableCount :: nat
  attempt :: nat

definition initial_vars :: "nat \<Rightarrow> count_vars" where
  "initial_vars n = \<lparr>previousCardCount = 0, currentCardCount = n, stableCount = 0, attempt = 0\<rparr>"

subsubsection \<open>PortalPage.waitForPortalPageLoad\<close>

definition mainContentSelector :: string where
  \<open>mainContentSelector = ''main, div[role="main"], div[class*="content"]''\<close>

definition cardsContainerSelector :: string where
  \<open>cardsContainerSelector = ''div[class*="cards"], div[class*="grid"], div[class*="container"]''\<close>

definition cardSelector :: string where
  \<open>cardSelector = ''div[class*="card"], div[role="article"], div[class*="tile"], section[class*="card"]''\<close>

text \<open>One pass of the loop body after the cards were counted: \<open>cur\<close> is \<open>cards.length\<close>.\<close>

definition portal_update :: "count_vars \<Rightarrow> nat \<Rightarrow> count_vars" where
  "portal_update v cur =
     v\<lparr>currentCardCount := cur,
       stableCount := (if cur = previousCardCount v \<and> cur > 0 then stableCount v + 1 else 0),
       previousCardCount := cur,
       attempt := attempt v + 1\<rparr>"

function portal_count_loop :: "page \<Rightarrow> count_vars \<Rightarrow> world \<Rightarrow> (error + count_vars) \<times> world" where
  "portal_count_loop h v s =
     (if attempt v < 10 \<and> stableCount v < 3 then
        (case wait h 1000 s of
           (Inl e, s1) \<Rightarrow> (Inl e, s1)
         | (Inr _, s1) \<Rightarrow>
             (case page_query_all h cardSelector s1 of
                (Inl e, s2) \<Rightarrow> (Inl e, s2)
              | (Inr cards, s2) \<Rightarrow> portal_count_loop h (portal_update v (length cards)) s2))
      else (Inr v, s))"
  by pat_completeness auto
termination
  by (relation "measure (\<lambda>(h, v, s). 10 - attempt v)") (auto simp: portal_update_def)

definition waitForPortalPageLoad :: "page \<Rightarrow> rat \<Rightarrow> unit prog" where
  "waitForPortalPageLoad h timeout =
     try_catch
       (seq (page_waitForSelector h mainContentSelector (timeout / 3))
       (seq (page_waitForSelector h cardsContainerSelector (timeout / 3))
       (seq (page_waitForSelector h cardSelector (timeout / 3))
       (seq (portal_count_loop h (initial_vars 0))
       (seq (wait h 2000)
            (takeScreenshot h ''portal-page-cards-loaded.png''))))))
       (\<lambda>error. takeScreenshot h ''portal-page-load-error.png'')"

subsubsection \<open>DashboardPage.waitForDashboardPageLoad\<close>


definition dashboardCardSelector :: string where
  \<open>dashboardCardSelector = ''div[class*="card"], div[role="article"], div[class*="tile"], div[class*="item"], section[class*="card"]''\<close>


text \<open>How the loop was left: by one of its two \<open>break\<close>s or by its bound.\<close>

datatype loop_exit = Stabilized | TimedOut | Exhausted

definition checkTimeout :: "rat \<Rightarrow> rat \<Rightarrow> world \<Rightarrow> bool" where
  "checkTimeout startTime timeout s = (let elapsedTime = clock s - startTime in elapsedTime > timeout)"

text \<open>
  The comparison at the head of a pass, for the passes that go on: \<open>currentCardCount\<close>
  is \<open>cards.length\<close>.
\<close>

definition dashboard_compare :: "count_vars \<Rightarrow> count_vars" where
  "dashboard_compare v =
     (if currentCardCount v = previousCardCount v then v\<lparr>stableCount := stableCount v + 1\<rparr>
      else v\<lparr>stableCount := 0, previousCardCount := currentCardCount v\<rparr>)"

function dashboard_count_loop ::
  "page \<Rightarrow> rat \<Rightarrow> rat \<Rightarrow> count_vars \<Rightarrow> world \<Rightarrow> (error + loop_exit \<times> count_vars) \<times> world" where
  "dashboard_count_loop h startTime timeout v s =
     (if attempt v < 5 then
        (if checkTimeout startTime timeout s then (Inr (TimedOut, v), s)
         else if currentCardCount v = previousCardCount v \<and> stableCount v + 1 \<ge> 2
           then (Inr (Stabilized, dashboard_compare v), s)
         else
           (case wait h 1000 s of
              (Inl e, s1) \<Rightarrow> (Inl e, s1)
            | (Inr _, s1) \<Rightarrow>
                (case page_query_all h dashboardCardSelector s1 of
                   (Inl e, s2) \<Rightarrow> (Inl e, s2)
                 | (Inr cards, s2) \<Rightarrow>
                     dashboard_count_loop h startTime timeout
                       ((dashboard_compare v)\<lparr>currentCardCount := length cards, attempt := attempt v + 1\<rparr>) s2)))
      else (Inr (Exhausted, v), s))"
  by pat_completeness auto
termination
  by (relation "measure (\<lambda>(h, startTime, timeout, v, s). 5 - attempt v)") auto




text \<open>
  A page on which nothing ever appears and no library call is rejected, in a runtime that
  is given by the ASCII string functions.
\<close>

definition blank_page :: page where
  "blank_page = \<lparr>pid = 0, toLowerCase = ascii_toLowerCase, trim = ascii_trim,
     dashed = ascii_dashed, runner_closes_at = 300000,
     waitForTimeout_fault = None, screenshot_fault = None,
     loadState_after = (\<lambda>_. None), selector_after = (\<lambda>_. None),
     query_all = (\<lambda>_ _. Inr []), getByText_regex = (\<lambda>_. Inr []),
     getByRole_button = (\<lambda>_. Inr []), getByRole_button_has = (\<lambda>_ _. Inr []),
     evaluate_script = (\<lambda>_. Inr False), checked = (\<lambda>_. Inr False),
     selector_visible = (\<lambda>_. Inr False), selector_text = (\<lambda>_. Inr None),
     goto_fault = (\<lambda>_. None), fill_fault = (\<lambda>_. None), click_selector_fault = (\<lambda>_. None),
     title = Inr [], innerText = Inr []\<rparr>"

definition world0 :: world where
  "world0 = \<lparr>clock = 0, queries = 0, calls = []\<rparr>"

subsection \<open>Element handles\<close>

text \<open>
  The name of a screenshot: \<open>name.toLowerCase().replace(/\s+/g, '-')\<close>.
\<close>

definition slug :: "page \<Rightarrow> string \<Rightarrow> string" where
  "slug h name = dashed h (toLowerCase h name)"

definition el_query_all :: "element \<Rightarrow> string \<Rightarrow> error + element list" where
  "el_query_all el selector = (case map_of (sub el) selector of None \<Rightarrow> Inr [] | Some a \<Rightarrow> a)"

definition el_query_one :: "element \<Rightarrow> string \<Rightarrow> error + element option" where
  "el_query_one el selector =
     (case el_query_all el selector of
        Inl e \<Rightarrow> Inl e
      | Inr [] \<Rightarrow> Inr None
      | Inr (x # _) \<Rightarrow> Inr (Some x))"

definition scrollIntoViewIfNeeded :: "element \<Rightarrow> unit prog" where
  "scrollIntoViewIfNeeded el = (\<lambda>s.
     case scroll_fault (ans el) of
       Some e \<Rightarrow> (Inl e, s)
     | None \<Rightarrow> (Inr (), record_call (Scroll (eid el)) s))"

definition click_force :: "element \<Rightarrow> unit prog" where
  "click_force el = (\<lambda>s.
     case force_click_fault (ans el) of
       Some e \<Rightarrow> (Inl e, record_call (ForceClick (eid el)) s)
     | None \<Rightarrow> (Inr (), record_call (ForceClick (eid el)) s))"













subsection \<open>Finding a card by name\<close>

text \<open>
  What the handle returned by \<open>findCard\<close> is: an \<open>ElementHandle\<close> from \<open>page.$$\<close>, or
  the \<open>Locator\<close> \<open>page.getByText(...).first()\<close>.
\<close>

datatype found = ElementHandle element | Locator element

definition portal_cardTitleSelector :: string where
  \<open>portal_cardTitleSelector = ''h1, h2, h3, h4, h5, div[class*="title"], div[class*="header"]''\<close>

definition dashboard_cardTitleSelector :: string where
  \<open>dashboard_cardTitleSelector = ''h1, h2, h3, h4, h5, div[class*="title"], div[class*="header"], span[class*="title"]''\<close>

text \<open>
  The test of one card in the first loop: \<open>card.$(cardTitleSelector)\<close>, its
  \<open>textContent()\<close>, the two \<open>continue\<close>s for \<open>null\<close> and for an empty text, and the
  case-insensitive \<open>includes\<close>. Either await may reject.
\<close>

definition title_hit :: "page \<Rightarrow> string \<Rightarrow> string \<Rightarrow> element \<Rightarrow> error + bool" where
  "title_hit h titleSelector cardName card_el =
     (case el_query_one card_el titleSelector of
        Inl e \<Rightarrow> Inl e
      | Inr None \<Rightarrow> Inr False
      | Inr (Some titleElement) \<Rightarrow>
          (case textContent (ans titleElement) of
             Inl e \<Rightarrow> Inl e
           | Inr None \<Rightarrow> Inr False
           | Inr (Some titleText) \<Rightarrow>
               if titleText = [] then Inr False
               else Inr (str_includes (toLowerCase h titleText) (toLowerCase h cardName))))"

text \<open>The test of one card in the second loop, on \<open>card.textContent()\<close>.\<close>

definition content_hit :: "page \<Rightarrow> string \<Rightarrow> element \<Rightarrow> error + bool" where
  "content_hit h cardName card_el =
     (case textContent (ans card_el) of
        Inl e \<Rightarrow> Inl e
      | Inr None \<Rightarrow> Inr False
      | Inr (Some cardText) \<Rightarrow>
          if cardText = [] then Inr False
          else Inr (str_includes (toLowerCase h cardText) (toLowerCase h cardName)))"

text \<open>
  A \<open>for (const card of cards)\<close> loop that returns the first card passing the test:
  \<open>None\<close> when the loop ends without a \<open>return\<close>.
\<close>

fun first_card :: "page \<Rightarrow> (element \<Rightarrow> error + bool) \<Rightarrow> string \<Rightarrow> element list \<Rightarrow> element option prog" where
  "first_card h test cardName [] = ret None"
| "first_card h test cardName (card_el # rest) =
     bind (of_answer (test card_el)) (\<lambda>hit.
       if hit then
         seq (scrollIntoViewIfNeeded card_el)
           (seq (takeScreenshot h (slug h cardName @ ''-card-found.png'')) (ret (Some card_el)))
       else first_card h test cardName rest)"

text \<open>The \<open>try\<close> block of \<open>PortalPage.findCard\<close> with its \<open>catch\<close>.\<close>

definition PortalPage_findCard_body :: "page \<Rightarrow> string \<Rightarrow> found option prog" where
  "PortalPage_findCard_body h cardName =
     try_catch
       (bind (page_query_all h cardSelector) (\<lambda>cards.
        bind (first_card h (title_hit h portal_cardTitleSelector cardName) cardName cards) (\<lambda>byTitle.
          case byTitle of
            Some card_el \<Rightarrow> ret (Some (ElementHandle card_el))
          | None \<Rightarrow>
              bind (first_card h (content_hit h cardName) cardName cards) (\<lambda>byContent.
                case byContent of
                  Some card_el \<Rightarrow> ret (Some (ElementHandle card_el))
                | None \<Rightarrow> seq (takeScreenshot h ''card-not-found.png'') (ret None)))))
       (\<lambda>error. seq (takeScreenshot h ''error-finding-card.png'') (ret None))"

definition PortalPage_findCard :: "page \<Rightarrow> string \<Rightarrow> found option prog" where
  "PortalPage_findCard h cardName =
     seq (waitForPortalPageLoad h 30000) (PortalPage_findCard_body h cardName)"

text \<open>
  The last resort of \<open>DashboardPage.findCard\<close>: \<open>page.getByText(new RegExp(cardName, 'i'))\<close>.
  Building the regular expression or counting the matches may throw; the matches come
  in document order.
\<close>

definition page_text_search :: "page \<Rightarrow> string \<Rightarrow> found option prog" where
  "page_text_search h cardName =
     bind (of_answer (getByText_regex h cardName)) (\<lambda>textElements.
       case textElements of
         firstElement # _ \<Rightarrow>
           seq (scrollIntoViewIfNeeded firstElement)
             (seq (takeScreenshot h (slug h cardName @ ''-text-found.png''))
                (ret (Some (Locator firstElement))))
       | [] \<Rightarrow> seq (takeScreenshot h ''card-not-found.png'') (ret None))"

definition DashboardPage_findCard :: "page \<Rightarrow> string \<Rightarrow> found option prog" where
  "DashboardPage_findCard h cardName =
     try_catch
       (bind (page_query_all h dashboardCardSelector) (\<lambda>cards.
        bind (first_card h (title_hit h dashboard_cardTitleSelector cardName) cardName cards) (\<lambda>byTitle.
          case byTitle of
            Some card_el \<Rightarrow> ret (Some (ElementHandle card_el))
          | None \<Rightarrow>
              bind (first_card h (content_hit h cardName) cardName cards) (\<lambda>byContent.
                case byContent of
                  Some card_el \<Rightarrow> ret (Some (ElementHandle card_el))
                | None \<Rightarrow> page_text_search h cardName))))
       (\<lambda>error. seq (takeScreenshot h ''error-finding-card.png'') (ret None))"

subsection \<open>Cards, buttons and icons of PortalPage and DashboardPage\<close>















subsection \<open>The other operations of PortalPage\<close>





subsection \<open>The other operations of DashboardPage\<close>




subsection \<open>The other operations of RequirementsPage\<close>













subsection \<open>LoginPage\<close>















subsection \<open>EllucianLoginPage\<close>














subsection \<open>Clicking with fallbacks (InternationalStudentPage.clickPortalFeatures)\<close>

text \<open>
  The block that clicks a menu item in the fourth strategy of \<open>clickPortalFeatures\<close>:
  \<open>click({force: true})\<close>; in its \<open>catch\<close>, a script that calls \<open>el.click()\<close> when the
  node has such a method and dispatches a \<open>MouseEvent\<close> otherwise; in the \<open>catch\<close> of
  that, a script that dispatches a \<open>MouseEvent\<close>. Every attempt is logged as it is made.
  The strategy then logs a line and returns \<open>true\<close>.
\<close>

definition evaluate_click :: "element \<Rightarrow> unit prog" where
  "evaluate_click el = (\<lambda>s.
     let made = (if has_click_method (ans el) then ScriptClick (eid el) else Dispatch (eid el)) in
     case script_fault (ans el) of
       Some e \<Rightarrow> (Inl e, record_call made s)
     | None \<Rightarrow> (Inr (), record_call made s))"

definition evaluate_dispatch :: "element \<Rightarrow> unit prog" where
  "evaluate_dispatch el = (\<lambda>s.
     case dispatch_fault (ans el) of
       Some e \<Rightarrow> (Inl e, record_call (Dispatch (eid el)) s)
     | None \<Rightarrow> (Inr (), record_call (Dispatch (eid el)) s))"

definition click_with_fallbacks :: "element \<Rightarrow> unit prog" where
  "click_with_fallbacks el =
     try_catch (click_force el)
       (\<lambda>error. try_catch (evaluate_click el) (\<lambda>jsError. evaluate_dispatch el))"

definition click_menu_item :: "element \<Rightarrow> bool prog" where
  "click_menu_item el = seq (click_with_fallbacks el) (ret True)"

subsection \<open>After a click: waitForNavigationAfterButtonClick\<close>

text \<open>
  \<open>context.pages()\<close> lists the open pages in the order they were opened. The method is
  the same in \<open>PortalPage\<close> and \<open>DashboardPage\<close>; \<open>h\<close> is \<open>this.page\<close>.
\<close>

record browser_context =
  context_pages :: "error + page list"

definition waitForNavigationAfterButtonClick :: "page \<Rightarrow> browser_context \<Rightarrow> page prog" where
  "waitForNavigationAfterButtonClick h context =
     try_catch
       (bind (of_answer (context_pages context)) (\<lambda>pages.
          if length pages > 1 then
            (let newPage = pages ! (length pages - 1) in
             seq (page_waitForLoadState newPage ''domcontentloaded'' 10000) (ret newPage))
          else seq (waitForLoadState h ''networkidle'' 10000) (ret h)))
       (\<lambda>error. ret h)"

subsection \<open>InternationalStudentPage\<close>
















subsection \<open>Where the tests take the address and the credentials from\<close>

text \<open>
  \<open>process.env\<close> is a map from names to strings. \<open>a || b\<close> on a string or
  \<open>undefined\<close> \<open>a\<close>: \<open>b\<close> when \<open>a\<close> is \<open>undefined\<close> or empty.
\<close>

type_synonym env = "string \<Rightarrow> string option"

definition or_default :: "string option \<Rightarrow> string \<Rightarrow> string" where
  "or_default a b = (case a of None \<Rightarrow> b | Some x \<Rightarrow> if x = [] then b else x)"

text \<open>
  \<open>ellucian-portal-event-signup.spec.js\<close> and
  \<open>ellucian-requirements-navigation-test.spec.js\<close>: the three values, then the check
  under the comment "Verify environment variables are set".
\<close>

definition event_signup_credentials :: "env \<Rightarrow> error + string \<times> string \<times> string" where
  "event_signup_credentials env =
     (let portalUrl = or_default (env ''url'')
            ''https://experience-dev-devinternal.elluciancloud.com/ebuildcanadaglobal/'';
          username = or_default (env ''Username'') ''vberg'';
          password = or_default (env ''Password'') ''111111''
      in if portalUrl = [] \<or> username = [] \<or> password = []
         then Inl (ConfigurationMissing
           ''Required environment variables (url, Username, Password) must be set in .env file'')
         else Inr (portalUrl, username, password))"

text \<open>\<open>ellucian-portal-login.spec.js\<close>: three literals, the environment is not read.\<close>

definition portal_login_credentials :: "env \<Rightarrow> error + string \<times> string \<times> string" where
  "portal_login_credentials env =
     Inr (''https://experience-dev-devinternal.elluciancloud.com/ebuildcanadaglobal/'',
          ''vberg'', ''111111'')"

subsection \<open>Sample pages\<close>

text \<open>A visible node without text that accepts every action.\<close>

definition quiet :: answers where
  "quiet = \<lparr>textContent = Inr None, attrs = [], isVisible = Inr True, scroll_fault = None,
     click_fault = None, force_click_fault = None, has_click_method = True, script_fault = None,
     dispatch_fault = None, highlight_fault = None, icon_script = Inr False\<rparr>"

definition plain_element :: "nat \<Rightarrow> element" where
  "plain_element i = Element i quiet []"

text \<open>
  A healthy page whose load states and selectors are there at once and whose \<open>k\<close>-th
  element query matches \<open>c k\<close> elements.
\<close>

definition counts_page :: "(nat \<Rightarrow> nat) \<Rightarrow> page" where
  "counts_page c = blank_page\<lparr>loadState_after := (\<lambda>_. Some 0), selector_after := (\<lambda>_. Some 0),
     query_all := (\<lambda>selector k. Inr (map plain_element [0..<c k]))\<rparr>"

text \<open>
  A card with a heading: the card's text and the heading's text are both \<open>t\<close>.
  A healthy page with a fixed list of cards.
\<close>

definition titled_card :: "nat \<Rightarrow> string \<Rightarrow> bool \<Rightarrow> element" where
  "titled_card i t vis =
     Element i (quiet\<lparr>textContent := Inr (Some t), isVisible := Inr vis\<rparr>)
       [(portal_cardTitleSelector, Inr [Element (i + 1) (quiet\<lparr>textContent := Inr (Some t)\<rparr>) []]),
        (dashboard_cardTitleSelector, Inr [Element (i + 1) (quiet\<lparr>textContent := Inr (Some t)\<rparr>) []])]"

definition cards_page :: "element list \<Rightarrow> page" where
  "cards_page cs = blank_page\<lparr>loadState_after := (\<lambda>_. Some 0), selector_after := (\<lambda>_. Some 0),
     query_all := (\<lambda>selector k. Inr cs)\<rparr>"

definition hidden_card :: element where
  "hidden_card = titled_card 0 ''Student Portal'' False"

definition shown_card :: element where
  "shown_card = titled_card 2 ''International Portal'' True"

text \<open>
  A menu item that is an SVG node (no \<open>click\<close> method) and rejects the forced click;
  a second tab that has loaded after 250 ms.
\<close>

definition svg_item :: element where
  "svg_item = Element 2 (quiet\<lparr>force_click_fault := Some TimeoutError, has_click_method := False\<rparr>) []"

definition second_tab :: page where
  "second_tab = blank_page\<lparr>pid := 1, loadState_after := (\<lambda>_. Some 250)\<rparr>"


subsection \<open>Predicates used in the statements\<close>

text \<open>
  The result of an operation does not depend on the world it starts in (the answers of
  the page are a parameter). A card is healthy for a search when its probes and its
  scrolling are not rejected.
\<close>

definition state_free :: "'a prog \<Rightarrow> bool" where
  "state_free m = (\<forall>s s'. fst (m s) = fst (m s'))"


definition no_match :: "page \<Rightarrow> string \<Rightarrow> string \<Rightarrow> element list \<Rightarrow> bool" where
  "no_match h titleSelector cardName cs =
     (\<forall>c\<in>set cs. title_hit h titleSelector cardName c \<noteq> Inr True \<and> content_hit h cardName c \<noteq> Inr True)"

subsection \<open>Auxiliary functions for the proofs about the stabilization loops\<close>

text \<open>
  For a sequence \<open>c\<close> of polled counts: the count the \<open>a\<close>-th poll is compared with,
  and the value the stability counter would have after \<open>a\<close> polls if the loop went on.
\<close>

definition prev_count :: "(nat \<Rightarrow> nat) \<Rightarrow> nat \<Rightarrow> nat" where
  "prev_count c a = (if a = 0 then 0 else c (a - 1))"

fun portal_streak :: "(nat \<Rightarrow> nat) \<Rightarrow> nat \<Rightarrow> nat" where
  "portal_streak c 0 = 0"
| "portal_streak c (Suc a) =
     (if c a = prev_count c a \<and> c a > 0 then portal_streak c a + 1 else 0)"

fun dashboard_streak :: "(nat \<Rightarrow> nat) \<Rightarrow> nat \<Rightarrow> nat" where
  "dashboard_streak d 0 = 0"
| "dashboard_streak d (Suc a) = (if d a = prev_count d a then dashboard_streak d a + 1 else 0)"

section \<open>Basic facts about the operations of BasePage\<close>

lemma no_throw_ret: "no_throw (ret v)"
  by (simp add: no_throw_def ret_def)

lemma no_throw_try_catch:
  assumes "\<And>e. no_throw (handler e)"
  shows "no_throw (try_catch m handler)"
  unfolding no_throw_def
proof
  fix s
  show "\<exists>v. fst (try_catch m handler s) = Inr v"
  proof (cases "m s")
    case (Pair r s')
    show ?thesis
    proof (cases r)
      case (Inl e)
      from assms[of e] obtain v where "fst (handler e s') = Inr v"
        unfolding no_throw_def by blast
      with Pair Inl show ?thesis by (simp add: try_catch_def)
    next
      case (Inr v)
      with Pair show ?thesis by (simp add: try_catch_def)
    qed
  qed
qed

lemma wait_result: "fst (wait h ms s) = Inr ()"
  by (simp add: wait_def try_catch_def page_waitForTimeout_def ret_def Let_def
      split: option.splits)

lemma wait_calls: "calls (snd (wait h ms s)) = Sleep (min ms 5000) # calls s"
  by (simp add: wait_def try_catch_def page_waitForTimeout_def ret_def Let_def
      record_call_def advance_def split: option.splits)

lemma wait_queries: "queries (snd (wait h ms s)) = queries s"
  by (simp add: wait_def try_catch_def page_waitForTimeout_def ret_def Let_def
      record_call_def advance_def split: option.splits)

lemma wait_clock:
  "clock (snd (wait h ms s)) =
     (if waitForTimeout_fault h = None then clock s + max 0 (min ms 5000) else clock s)"
  by (simp add: wait_def try_catch_def page_waitForTimeout_def ret_def Let_def
      record_call_def advance_def split: option.splits)

lemma takeScreenshot_result: "fst (takeScreenshot h path s) = Inr ()"
  by (simp add: takeScreenshot_def try_catch_def page_screenshot_def ret_def
      split: option.splits)

lemma takeScreenshot_clock: "clock (snd (takeScreenshot h path s)) = clock s"
  by (simp add: takeScreenshot_def try_catch_def page_screenshot_def ret_def record_call_def
      split: option.splits)

lemma takeScreenshot_queries: "queries (snd (takeScreenshot h path s)) = queries s"
  by (simp add: takeScreenshot_def try_catch_def page_screenshot_def ret_def record_call_def
      split: option.splits)

lemma fst_bind:
  "fst (bind m f s) = (case fst (m s) of Inl e \<Rightarrow> Inl e | Inr v \<Rightarrow> fst (f v (snd (m s))))"
  by (simp add: bind_def split: prod.splits sum.splits)

lemma fst_seq:
  "fst (seq m n s) = (case fst (m s) of Inl e \<Rightarrow> Inl e | Inr v \<Rightarrow> fst (n (snd (m s))))"
  by (simp add: seq_def fst_bind)

lemma fst_try_catch:
  "fst (try_catch m handler s) =
     (case fst (m s) of Inl e \<Rightarrow> fst (handler e (snd (m s))) | Inr v \<Rightarrow> Inr v)"
  by (simp add: try_catch_def split: prod.splits sum.splits)

lemma fst_ret: "fst (ret v s) = Inr v"
  by (simp add: ret_def)

lemma fst_of_answer: "fst (of_answer a s) = a"
  by (simp add: of_answer_def)

lemma fst_scroll:
  "fst (scrollIntoViewIfNeeded el s) = (case scroll_fault (ans el) of Some e \<Rightarrow> Inl e | None \<Rightarrow> Inr ())"
  by (simp add: scrollIntoViewIfNeeded_def split: option.splits)

lemma fst_page_query_all: "fst (page_query_all h selector s) = query_all h selector (queries s)"
  by (simp add: page_query_all_def)

lemma no_throw_seq: "no_throw m \<Longrightarrow> no_throw n \<Longrightarrow> no_throw (seq m n)"
  unfolding no_throw_def fst_seq
  by (metis old.sum.simps(6))

lemma no_throw_takeScreenshot: "no_throw (takeScreenshot h path)"
  by (simp add: no_throw_def takeScreenshot_result)

lemma no_throw_waitForPortalPageLoad: "no_throw (waitForPortalPageLoad h timeout)"
  unfolding waitForPortalPageLoad_def
  by (rule no_throw_try_catch) (rule no_throw_takeScreenshot)

lemma fst_waitForPortalPageLoad: "fst (waitForPortalPageLoad h timeout s) = Inr ()"
  using no_throw_waitForPortalPageLoad[of h timeout] by (simp add: no_throw_def)

lemma state_free_ret: "state_free (ret v)"
  by (simp add: state_free_def fst_ret)

lemma state_free_of_answer: "state_free (of_answer a)"
  by (simp add: state_free_def fst_of_answer)

lemma state_free_scroll: "state_free (scrollIntoViewIfNeeded el)"
  by (simp add: state_free_def fst_scroll)

lemma state_free_takeScreenshot: "state_free (takeScreenshot h path)"
  by (simp add: state_free_def takeScreenshot_result)

lemma state_free_bind:
  assumes "state_free m" and "\<And>v. state_free (f v)"
  shows "state_free (bind m f)"
  unfolding state_free_def
proof (intro allI)
  fix s s'
  from assms(1) have eq: "fst (m s) = fst (m s')" by (simp add: state_free_def)
  show "fst (bind m f s) = fst (bind m f s')"
  proof (cases "fst (m s)")
    case (Inl e)
    moreover from Inl eq have "fst (m s') = Inl e" by simp
    ultimately show ?thesis by (simp add: fst_bind)
  next
    case (Inr v)
    moreover from Inr eq have "fst (m s') = Inr v" by simp
    moreover from assms(2)[of v] have "fst (f v (snd (m s))) = fst (f v (snd (m s')))"
      by (simp add: state_free_def)
    ultimately show ?thesis by (simp add: fst_bind)
  qed
qed

lemma state_free_seq: "state_free m \<Longrightarrow> state_free n \<Longrightarrow> state_free (seq m n)"
  unfolding seq_def by (rule state_free_bind)

lemma state_free_first_card: "state_free (first_card h test cardName cs)"
proof (induction cs)
  case Nil
  show ?case by (simp add: state_free_ret)
next
  case (Cons c cs)
  show ?case
    unfolding first_card.simps
    by (intro state_free_bind state_free_of_answer)
       (simp add: Cons state_free_seq state_free_scroll state_free_takeScreenshot state_free_ret)
qed

lemma state_free_try_catch:
  assumes "state_free m" and "\<And>e. state_free (handler e)"
  shows "state_free (try_catch m handler)"
  unfolding state_free_def
proof (intro allI)
  fix s s'
  from assms(1) have eq: "fst (m s) = fst (m s')" by (simp add: state_free_def)
  show "fst (try_catch m handler s) = fst (try_catch m handler s')"
  proof (cases "fst (m s)")
    case (Inl e)
    moreover from Inl eq have "fst (m s') = Inl e" by simp
    moreover from assms(2)[of e] have "fst (handler e (snd (m s))) = fst (handler e (snd (m s')))"
      by (simp add: state_free_def)
    ultimately show ?thesis by (simp add: fst_try_catch)
  next
    case (Inr v)
    moreover from Inr eq have "fst (m s') = Inr v" by simp
    ultimately show ?thesis by (simp add: fst_try_catch)
  qed
qed

lemma state_free_page_query_all:
  "\<forall>k. query_all h selector k = query_all h selector 0 \<Longrightarrow> state_free (page_query_all h selector)"
  unfolding state_free_def fst_page_query_all by metis

section \<open>The cap of BasePage.wait\<close>

text \<open>
  C9. \<open>BasePage.wait(ms)\<close> asks the library for a pause of \<open>min(ms, 5000)\<close>
  milliseconds, whatever \<open>ms\<close> is, and never throws; unless the library rejects the
  call, the clock moves on by exactly that much (a negative request does not move it).
  \<open>RequirementsPage.waitOnRequirementsPage(seconds)\<close> goes through the same cap: for
  more than 5 seconds it pauses 5000 ms.
\<close>

theorem wait_capped_at_5000:
  "fst (wait h ms s) = Inr ()
   \<and> calls (snd (wait h ms s)) = Sleep (min ms 5000) # calls s
   \<and> min ms 5000 \<le> 5000
   \<and> clock (snd (wait h ms s)) =
       (if waitForTimeout_fault h = None then clock s + max 0 (min ms 5000) else clock s)
   \<and> calls (snd (waitOnRequirementsPage h seconds s)) =
       Sleep (if 5 < seconds then 5000 else seconds * 1000) # calls s
   \<and> clock (snd (waitOnRequirementsPage h seconds s)) \<le> clock s + 5000"
proof -
  have a: "min (seconds * 1000) 5000 = (if 5 < seconds then 5000 else seconds * 1000)"
    by (simp add: min_def)
  have b: "clock (snd (wait h (seconds * 1000) s)) \<le> clock s + 5000"
    by (simp add: wait_clock)
  show ?thesis
    using a b by (simp add: wait_result wait_calls wait_clock waitOnRequirementsPage_def)
qed

theorem wait_capped_at_5000_witness:
  "calls (snd (wait blank_page 10000 world0)) = [Sleep 5000]
   \<and> clock (snd (wait blank_page 10000 world0)) = 5000
   \<and> calls (snd (waitOnRequirementsPage blank_page 10 world0)) = [Sleep 5000]"
  using wait_capped_at_5000 [of blank_page 10000 world0 10]
  by (simp add: blank_page_def world0_def)

section \<open>The card-count stabilization loops\<close>

declare portal_count_loop.simps [simp del]
declare dashboard_count_loop.simps [simp del]

lemma wait_step:
  "\<exists>s1. wait h ms s = (Inr (), s1) \<and> queries s1 = queries s \<and> clock s \<le> clock s1
        \<and> clock s1 \<le> clock s + max 0 (min ms 5000)"
  by (cases "waitForTimeout_fault h")
     (simp_all add: wait_def try_catch_def page_waitForTimeout_def ret_def Let_def
        record_call_def advance_def)

lemma portal_streak_ge3:
  "3 \<le> portal_streak c b \<longleftrightarrow>
     (\<exists>k. b = k + 4 \<and> 0 < c k \<and> c (k + 1) = c k \<and> c (k + 2) = c k \<and> c (k + 3) = c k)"
proof (cases b)
  case 0
  then show ?thesis by simp
next
  case b1: (Suc b1)
  show ?thesis
  proof (cases b1)
    case 0
    with b1 show ?thesis by (simp add: prev_count_def)
  next
    case b2: (Suc b2)
    show ?thesis
    proof (cases b2)
      case 0
      with b1 b2 show ?thesis by (simp add: prev_count_def)
    next
      case b3: (Suc b3)
      show ?thesis
      proof (cases b3)
        case 0
        with b1 b2 b3 show ?thesis by (simp add: prev_count_def)
      next
        case (Suc k)
        with b1 b2 b3 have b: "b = k + 4" by simp
        have "3 \<le> portal_streak c (Suc (Suc (Suc (Suc k)))) \<longleftrightarrow>
              (0 < c k \<and> c (k + 1) = c k \<and> c (k + 2) = c k \<and> c (k + 3) = c k)"
          by (auto simp: prev_count_def numeral_3_eq_3 eval_nat_numeral)
        moreover have "Suc (Suc (Suc (Suc k))) = k + 4" by simp
        ultimately show ?thesis using b by auto
      qed
    qed
  qed
qed

lemma portal_streak_step: "portal_streak c (Suc a) \<le> portal_streak c a + 1"
  by simp

lemma portal_loop_exit:
  shows "\<forall>i<10. \<exists>cs. query_all h cardSelector (q0 + i) = Inr cs \<and> length cs = c i
     \<Longrightarrow> queries s = q0 + attempt v \<Longrightarrow> previousCardCount v = prev_count c (attempt v)
     \<Longrightarrow> stableCount v = portal_streak c (attempt v) \<Longrightarrow> attempt v \<le> 10
     \<Longrightarrow> (\<forall>b<attempt v. portal_streak c b < 3)
     \<Longrightarrow> \<exists>v' s'. portal_count_loop h v s = (Inr v', s') \<and> attempt v' \<le> 10
           \<and> stableCount v' = portal_streak c (attempt v')
           \<and> (\<forall>b<attempt v'. portal_streak c b < 3)
           \<and> (attempt v' = 10 \<or> 3 \<le> portal_streak c (attempt v'))"
proof (induction h v s rule: portal_count_loop.induct)
  case (1 h v s)
  note polls = "1.prems"(1) and qs = "1.prems"(2) and pv = "1.prems"(3) and sv = "1.prems"(4)
    and av = "1.prems"(5) and below = "1.prems"(6)
  show ?case
  proof (cases "attempt v < 10 \<and> stableCount v < 3")
    case False
    then have "portal_count_loop h v s = (Inr v, s)"
      by (subst portal_count_loop.simps) (simp only: if_False)
    moreover from False sv av have "attempt v = 10 \<or> 3 \<le> portal_streak c (attempt v)"
      by auto
    ultimately show ?thesis using sv av below by auto
  next
    case True
    obtain s1 where s1: "wait h 1000 s = (Inr (), s1)" "queries s1 = queries s"
      using wait_step by blast
    from True polls have "\<exists>cs. query_all h cardSelector (q0 + attempt v) = Inr cs \<and> length cs = c (attempt v)"
      by blast
    with qs obtain cs where
      cs: "query_all h cardSelector (queries s) = Inr cs" "length cs = c (attempt v)"
      by auto
    let ?s2 = "s1\<lparr>queries := queries s1 + 1\<rparr>"
    let ?v = "portal_update v (length cs)"
    have q: "page_query_all h cardSelector s1 = (Inr cs, ?s2)"
      using s1 cs by (simp add: page_query_all_def)
    have unfold: "portal_count_loop h v s = portal_count_loop h ?v ?s2"
      using True s1 q by (subst portal_count_loop.simps) simp
    have att: "attempt ?v = Suc (attempt v)" by (simp add: portal_update_def)
    have p1: "queries ?s2 = q0 + attempt ?v" using s1 qs att by simp
    have p2: "previousCardCount ?v = prev_count c (attempt ?v)"
      using cs att by (simp add: portal_update_def prev_count_def)
    have p3: "stableCount ?v = portal_streak c (attempt ?v)"
      using cs att pv sv by (simp add: portal_update_def)
    have p4: "attempt ?v \<le> 10" using True att by simp
    have p5: "\<forall>b<attempt ?v. portal_streak c b < 3"
      using sv below True att by (auto simp: less_Suc_eq)
    have "\<exists>v' s'. portal_count_loop h ?v ?s2 = (Inr v', s') \<and> attempt v' \<le> 10
           \<and> stableCount v' = portal_streak c (attempt v')
           \<and> (\<forall>b<attempt v'. portal_streak c b < 3)
           \<and> (attempt v' = 10 \<or> 3 \<le> portal_streak c (attempt v'))"
      using "1.IH"[OF True _ _ _ _ polls p1 p2 p3 p4 p5] s1 q by simp
    with unfold show ?thesis by simp
  qed
qed


lemma portal_stable_iff:
  assumes polls: "\<forall>i<10. \<exists>cs. query_all h cardSelector (queries s + i) = Inr cs \<and> length cs = c i"
  shows "\<exists>v' s'. portal_count_loop h (initial_vars 0) s = (Inr v', s')
      \<and> (stableCount v' = 3 \<longleftrightarrow>
           (\<exists>k. k + 3 < 10 \<and> 0 < c k \<and> c (k + 1) = c k \<and> c (k + 2) = c k \<and> c (k + 3) = c k))"
proof -
  have "\<exists>v' s'. portal_count_loop h (initial_vars 0) s = (Inr v', s') \<and> attempt v' \<le> 10
           \<and> stableCount v' = portal_streak c (attempt v')
           \<and> (\<forall>b<attempt v'. portal_streak c b < 3)
           \<and> (attempt v' = 10 \<or> 3 \<le> portal_streak c (attempt v'))"
    by (rule portal_loop_exit[where ?q0.0 = "queries s"])
       (use polls in \<open>simp_all add: initial_vars_def prev_count_def\<close>)
  then obtain v' s' where r: "portal_count_loop h (initial_vars 0) s = (Inr v', s')"
    and a: "attempt v' \<le> 10" and st: "stableCount v' = portal_streak c (attempt v')"
    and below: "\<forall>b<attempt v'. portal_streak c b < 3"
    and ex: "attempt v' = 10 \<or> 3 \<le> portal_streak c (attempt v')"
    by blast
  let ?W = "\<exists>k. k + 3 < 10 \<and> 0 < c k \<and> c (k + 1) = c k \<and> c (k + 2) = c k \<and> c (k + 3) = c k"
  have le3: "stableCount v' \<le> 3"
  proof (cases "attempt v'")
    case 0
    with st show ?thesis by simp
  next
    case (Suc a)
    with below have "portal_streak c a < 3" by simp
    moreover have "portal_streak c (Suc a) \<le> portal_streak c a + 1" by (rule portal_streak_step)
    ultimately show ?thesis using st Suc by simp
  qed
  have "stableCount v' = 3 \<longleftrightarrow> ?W"
  proof
    assume "stableCount v' = 3"
    with st have "3 \<le> portal_streak c (attempt v')" by simp
    then obtain k where "attempt v' = k + 4" "0 < c k" "c (k + 1) = c k" "c (k + 2) = c k"
      "c (k + 3) = c k"
      unfolding portal_streak_ge3 by blast
    with a show ?W by (intro exI[of _ k]) simp
  next
    assume ?W
    then obtain k where k: "k + 3 < 10" "0 < c k" "c (k + 1) = c k" "c (k + 2) = c k"
      "c (k + 3) = c k" by blast
    then have ge: "3 \<le> portal_streak c (k + 4)" unfolding portal_streak_ge3 by blast
    then have "\<not> k + 4 < attempt v'" using below by auto
    then have "attempt v' \<le> k + 4" by simp
    have "3 \<le> portal_streak c (attempt v')"
    proof (cases "attempt v' = 10")
      case True
      with \<open>attempt v' \<le> k + 4\<close> k(1) have "k + 4 = attempt v'" by simp
      with ge show ?thesis by simp
    next
      case False
      with ex show ?thesis by simp
    qed
    with le3 st show "stableCount v' = 3" by simp
  qed
  with r show ?thesis by blast
qed


lemma dashboard_streak_ge2:
  "2 \<le> dashboard_streak d b \<longleftrightarrow>
     (b = 2 \<and> d 0 = 0 \<and> d 1 = 0) \<or> (\<exists>k. b = k + 3 \<and> d (k + 1) = d k \<and> d (k + 2) = d k)"
proof (cases b)
  case 0
  then show ?thesis by simp
next
  case b1: (Suc b1)
  show ?thesis
  proof (cases b1)
    case 0
    with b1 show ?thesis by (simp add: prev_count_def)
  next
    case b2: (Suc b2)
    show ?thesis
    proof (cases b2)
      case 0
      with b1 b2 show ?thesis by (auto simp: prev_count_def)
    next
      case (Suc k)
      with b1 b2 have b: "b = k + 3" by simp
      have "2 \<le> dashboard_streak d (Suc (Suc (Suc k))) \<longleftrightarrow> (d (k + 1) = d k \<and> d (k + 2) = d k)"
        by (auto simp: prev_count_def eval_nat_numeral)
      moreover have "Suc (Suc (Suc k)) = k + 3" by simp
      ultimately show ?thesis using b by auto
    qed
  qed
qed

lemma dashboard_loop_exit:
  shows "\<forall>i<5. \<exists>cs. query_all h dashboardCardSelector (q0 + i) = Inr cs \<and> length cs = d (i + 1)
     \<Longrightarrow> queries s = q0 + attempt v
     \<Longrightarrow> currentCardCount v = d (attempt v)
     \<Longrightarrow> previousCardCount v = prev_count d (attempt v)
     \<Longrightarrow> stableCount v = dashboard_streak d (attempt v)
     \<Longrightarrow> attempt v \<le> 5
     \<Longrightarrow> (\<forall>b\<le>attempt v. dashboard_streak d b < 2)
     \<Longrightarrow> clock s \<le> t0 + 1000 * of_nat (attempt v)
     \<Longrightarrow> t0 + 4000 \<le> startTime + timeout
     \<Longrightarrow> \<exists>x v' s'. dashboard_count_loop h startTime timeout v s = (Inr (x, v'), s')
           \<and> ((x = Stabilized \<and> (\<exists>b\<le>5. 2 \<le> dashboard_streak d b))
              \<or> (x = Exhausted \<and> (\<forall>b\<le>5. dashboard_streak d b < 2)))"
proof (induction h startTime timeout v s rule: dashboard_count_loop.induct)
  case (1 h startTime timeout v s)
  note polls = "1.prems"(1) and qs = "1.prems"(2) and cv = "1.prems"(3) and pv = "1.prems"(4)
    and sv = "1.prems"(5) and av = "1.prems"(6) and below = "1.prems"(7)
    and ck = "1.prems"(8) and budget = "1.prems"(9)
  show ?case
  proof (cases "attempt v < 5")
    case False
    then have "dashboard_count_loop h startTime timeout v s = (Inr (Exhausted, v), s)"
      by (subst dashboard_count_loop.simps) (simp only: if_False)
    moreover from False av have "attempt v = 5" by simp
    ultimately show ?thesis using below by auto
  next
    case True
    then have "(of_nat (attempt v) :: rat) \<le> 4" by simp
    with ck budget have nt: "\<not> checkTimeout startTime timeout s"
      by (simp add: checkTimeout_def Let_def)
    show ?thesis
    proof (cases "currentCardCount v = previousCardCount v \<and> stableCount v + 1 \<ge> 2")
      case stab: True
      have "dashboard_count_loop h startTime timeout v s = (Inr (Stabilized, dashboard_compare v), s)"
        using True nt stab by (subst dashboard_count_loop.simps) simp
      moreover have "2 \<le> dashboard_streak d (Suc (attempt v))"
        using stab cv pv sv by simp
      moreover have "Suc (attempt v) \<le> 5" using True by simp
      ultimately show ?thesis by blast
    next
      case go: False
      obtain s1 where s1: "wait h 1000 s = (Inr (), s1)" "queries s1 = queries s"
        "clock s1 \<le> clock s + max 0 (min 1000 5000)"
        using wait_step by blast
      from True polls have "\<exists>cs. query_all h dashboardCardSelector (q0 + attempt v) = Inr cs
          \<and> length cs = d (attempt v + 1)"
        by blast
      with qs obtain cs where
        cs: "query_all h dashboardCardSelector (queries s) = Inr cs" "length cs = d (attempt v + 1)"
        by auto
      let ?s2 = "s1\<lparr>queries := queries s1 + 1\<rparr>"
      let ?v = "(dashboard_compare v)\<lparr>currentCardCount := length cs, attempt := attempt v + 1\<rparr>"
      have q: "page_query_all h dashboardCardSelector s1 = (Inr cs, ?s2)"
        using s1 cs by (simp add: page_query_all_def)
      have unfold: "dashboard_count_loop h startTime timeout v s
                    = dashboard_count_loop h startTime timeout ?v ?s2"
        using True nt go s1 q by (subst dashboard_count_loop.simps) auto
      have att: "attempt ?v = Suc (attempt v)" by (simp add: dashboard_compare_def)
      have p1: "queries ?s2 = q0 + attempt ?v" using s1 qs att by simp
      have p2: "currentCardCount ?v = d (attempt ?v)" using cs att by simp
      have p3: "previousCardCount ?v = prev_count d (attempt ?v)"
        using att cv pv by (simp add: dashboard_compare_def prev_count_def)
      have p4: "stableCount ?v = dashboard_streak d (attempt ?v)"
        using att cv pv sv by (simp add: dashboard_compare_def)
      have p5: "attempt ?v \<le> 5" using True att by simp
      have "dashboard_streak d (Suc (attempt v)) < 2"
        using go cv pv sv by auto
      then have p6: "\<forall>b\<le>attempt ?v. dashboard_streak d b < 2"
        using below att by (auto simp: le_Suc_eq)
      have p7: "clock ?s2 \<le> t0 + 1000 * of_nat (attempt ?v)"
        using s1(3) ck att by simp
      have "\<exists>x v' s'. dashboard_count_loop h startTime timeout ?v ?s2 = (Inr (x, v'), s')
           \<and> ((x = Stabilized \<and> (\<exists>b\<le>5. 2 \<le> dashboard_streak d b))
              \<or> (x = Exhausted \<and> (\<forall>b\<le>5. dashboard_streak d b < 2)))"
        using "1.IH"[OF True nt go _ _ _ _ polls p1 p2 p3 p4 p5 p6 p7 budget] s1 q by simp
      with unfold show ?thesis by simp
    qed
  qed
qed

lemma dashboard_stable_iff:
  assumes polls: "\<forall>i<5. \<exists>cs. query_all h dashboardCardSelector (queries s + i) = Inr cs \<and> length cs = d (i + 1)"
    and budget: "clock s + 4000 \<le> startTime + timeout"
  shows "\<exists>x v' s'. dashboard_count_loop h startTime timeout (initial_vars (d 0)) s = (Inr (x, v'), s')
      \<and> (x = Stabilized \<longleftrightarrow>
           (d 0 = 0 \<and> d 1 = 0) \<or> (\<exists>k. k + 2 < 5 \<and> d (k + 1) = d k \<and> d (k + 2) = d k))"
proof -
  have "\<exists>x v' s'. dashboard_count_loop h startTime timeout (initial_vars (d 0)) s = (Inr (x, v'), s')
           \<and> ((x = Stabilized \<and> (\<exists>b\<le>5. 2 \<le> dashboard_streak d b))
              \<or> (x = Exhausted \<and> (\<forall>b\<le>5. dashboard_streak d b < 2)))"
    by (rule dashboard_loop_exit[where ?q0.0 = "queries s" and ?t0.0 = "clock s"])
       (use polls budget in \<open>simp_all add: initial_vars_def prev_count_def\<close>)
  then obtain x v' s' where r: "dashboard_count_loop h startTime timeout (initial_vars (d 0)) s = (Inr (x, v'), s')"
    and ex: "(x = Stabilized \<and> (\<exists>b\<le>5. 2 \<le> dashboard_streak d b))
              \<or> (x = Exhausted \<and> (\<forall>b\<le>5. dashboard_streak d b < 2))"
    by blast
  let ?W = "(d 0 = 0 \<and> d 1 = 0) \<or> (\<exists>k. k + 2 < 5 \<and> d (k + 1) = d k \<and> d (k + 2) = d k)"
  have w: "(\<exists>b\<le>5. 2 \<le> dashboard_streak d b) \<longleftrightarrow> ?W"
  proof
    assume "\<exists>b\<le>5. 2 \<le> dashboard_streak d b"
    then obtain b where b: "b \<le> 5" "2 \<le> dashboard_streak d b" by blast
    from b(2) have "(b = 2 \<and> d 0 = 0 \<and> d 1 = 0) \<or> (\<exists>k. b = k + 3 \<and> d (k + 1) = d k \<and> d (k + 2) = d k)"
      unfolding dashboard_streak_ge2 .
    then show ?W
    proof
      assume "b = 2 \<and> d 0 = 0 \<and> d 1 = 0"
      then show ?W by simp
    next
      assume "\<exists>k. b = k + 3 \<and> d (k + 1) = d k \<and> d (k + 2) = d k"
      then obtain k where "b = k + 3" "d (k + 1) = d k" "d (k + 2) = d k" by blast
      with b(1) have "k + 2 < 5 \<and> d (k + 1) = d k \<and> d (k + 2) = d k" by simp
      then show ?W by blast
    qed
  next
    assume ?W
    then show "\<exists>b\<le>5. 2 \<le> dashboard_streak d b"
    proof
      assume "d 0 = 0 \<and> d 1 = 0"
      then have "2 \<le> dashboard_streak d 2" unfolding dashboard_streak_ge2 by simp
      then show ?thesis by (intro exI[of _ 2]) simp
    next
      assume "\<exists>k. k + 2 < 5 \<and> d (k + 1) = d k \<and> d (k + 2) = d k"
      then obtain k where k: "k + 2 < 5" "d (k + 1) = d k" "d (k + 2) = d k" by blast
      then have "2 \<le> dashboard_streak d (k + 3)" unfolding dashboard_streak_ge2 by blast
      with k(1) show ?thesis by (intro exI[of _ "k + 3"]) simp
    qed
  qed
  have "x = Stabilized \<longleftrightarrow> ?W"
  proof
    assume "x = Stabilized"
    with ex have "\<exists>b\<le>5. 2 \<le> dashboard_streak d b" by simp
    with w show ?W by simp
  next
    assume ?W
    with w have "\<exists>b\<le>5. 2 \<le> dashboard_streak d b" by simp
    with ex show "x = Stabilized" by force
  qed
  with r show ?thesis by blast
qed

lemma count_query: "query_all (counts_page c) selector k = Inr (map plain_element [0..<c k])"
  by (simp add: counts_page_def blank_page_def)

text \<open>
  C1 (as amended). Let \<open>c i\<close> be the number of cards the \<open>i\<close>-th poll of
  \<open>waitForPortalPageLoad\<close>'s loop finds, none of its ten polls being rejected. The loop
  ends with \<open>stableCount = 3\<close> exactly when four consecutive polls among the ten return
  the same non-zero count: the counter counts the polls that equal the poll before them,
  so three equal polls bring it to 2 only. For \<open>waitForDashboardPageLoad\<close>, let \<open>d 0\<close> be
  the count before the loop and \<open>d (i + 1)\<close> the count of the \<open>i\<close>-th poll in it, with a
  budget that does not run out: the loop is left through "stabilized" exactly when three
  consecutive counts among \<open>d 0 .. d 4\<close> are equal (zero included), or the first two are
  both zero (the previous count starts at 0 and the threshold is 2). In both loops a count
  that differs from the previous one puts the counter back to 0.
\<close>

theorem count_stabilization:
  assumes "\<forall>i<10. \<exists>cs. query_all h cardSelector (queries s + i) = Inr cs \<and> length cs = c i"
    and "\<forall>i<5. \<exists>cs. query_all h' dashboardCardSelector (queries s' + i) = Inr cs \<and> length cs = d (i + 1)"
    and "clock s' + 4000 \<le> startTime + timeout"
  shows "(\<exists>v. fst (portal_count_loop h (initial_vars 0) s) = Inr v
            \<and> (stableCount v = 3 \<longleftrightarrow>
                 (\<exists>k. k + 3 < 10 \<and> 0 < c k \<and> c (k + 1) = c k \<and> c (k + 2) = c k \<and> c (k + 3) = c k)))
       \<and> (\<exists>x v. fst (dashboard_count_loop h' startTime timeout (initial_vars (d 0)) s') = Inr (x, v)
            \<and> (x = Stabilized \<longleftrightarrow>
                 (d 0 = 0 \<and> d 1 = 0) \<or> (\<exists>k. k + 2 < 5 \<and> d (k + 1) = d k \<and> d (k + 2) = d k)))
       \<and> stableCount (portal_update v0 cur)
           = (if cur = previousCardCount v0 \<and> 0 < cur then stableCount v0 + 1 else 0)
       \<and> stableCount (dashboard_compare v0)
           = (if currentCardCount v0 = previousCardCount v0 then stableCount v0 + 1 else 0)"
proof -
  from portal_stable_iff[OF assms(1)] have a: "\<exists>v. fst (portal_count_loop h (initial_vars 0) s) = Inr v
            \<and> (stableCount v = 3 \<longleftrightarrow>
                 (\<exists>k. k + 3 < 10 \<and> 0 < c k \<and> c (k + 1) = c k \<and> c (k + 2) = c k \<and> c (k + 3) = c k))"
    by force
  from dashboard_stable_iff[OF assms(2,3)] have b: "\<exists>x v. fst (dashboard_count_loop h' startTime timeout (initial_vars (d 0)) s') = Inr (x, v)
            \<and> (x = Stabilized \<longleftrightarrow>
                 (d 0 = 0 \<and> d 1 = 0) \<or> (\<exists>k. k + 2 < 5 \<and> d (k + 1) = d k \<and> d (k + 2) = d k))"
    by force
  have c: "stableCount (portal_update v0 cur)
           = (if cur = previousCardCount v0 \<and> 0 < cur then stableCount v0 + 1 else 0)"
    by (simp add: portal_update_def)
  have d: "stableCount (dashboard_compare v0)
           = (if currentCardCount v0 = previousCardCount v0 then stableCount v0 + 1 else 0)"
    by (simp add: dashboard_compare_def)
  from a b c d show ?thesis by blast
qed

theorem count_stabilization_witness:
  "(\<exists>v. fst (portal_count_loop (counts_page (\<lambda>_. 5)) (initial_vars 0) world0) = Inr v \<and> stableCount v = 3)
   \<and> (\<exists>v. fst (dashboard_count_loop (counts_page (\<lambda>_. 3)) 0 20000 (initial_vars 3) world0) = Inr (Stabilized, v))"
proof -
  have h1: "\<forall>i<10. \<exists>cs. query_all (counts_page (\<lambda>_. 5)) cardSelector (queries world0 + i) = Inr cs
              \<and> length cs = (\<lambda>_. 5) i"
    by (simp add: count_query)
  have h2: "\<forall>i<5. \<exists>cs. query_all (counts_page (\<lambda>_. 3)) dashboardCardSelector (queries world0 + i) = Inr cs
              \<and> length cs = (\<lambda>_. 3) (i + 1)"
    by (simp add: count_query)
  have h3: "clock world0 + 4000 \<le> 0 + (20000::rat)"
    by (simp add: world0_def)
  have k1: "\<exists>k::nat. k + 3 < 10 \<and> (0::nat) < 5" by (intro exI[of _ 0]) simp
  have k2: "\<exists>k::nat. k + 2 < 5" by (intro exI[of _ 0]) simp
  from count_stabilization[OF h1 h2 h3] k1 k2 show ?thesis by simp
qed

text \<open>
  C1 as stated fails. Polls 5, 5, 5, 6, 7, ... hold three consecutive identical non-zero
  counts, and \<open>waitForPortalPageLoad\<close>'s loop runs all ten passes and ends with
  \<open>stableCount = 0\<close>. On a dashboard without any card, \<open>waitForDashboardPageLoad\<close>'s
  loop declares the count stable after two polls of zero.
\<close>

theorem three_equal_polls_not_stable:
  "map (\<lambda>k. if k < 3 then 5 else k + 3) [0..<10] = [5, 5, 5, 6, 7, 8, 9, 10, 11, 12 :: nat]
   \<and> fst (portal_count_loop (counts_page (\<lambda>k. if k < 3 then 5 else k + 3)) (initial_vars 0) world0)
     = Inr \<lparr>previousCardCount = 12, currentCardCount = 12, stableCount = 0, attempt = 10\<rparr>
   \<and> fst (dashboard_count_loop (counts_page (\<lambda>_. 0)) 0 20000 (initial_vars 0) world0)
     = Inr (Stabilized, \<lparr>previousCardCount = 0, currentCardCount = 0, stableCount = 2, attempt = 1\<rparr>)"
  by code_simp

section \<open>Elapsed time and the timeout budget\<close>

lemma dashboard_loop_timed_out:
  "attempt v < 5 \<Longrightarrow> checkTimeout startTime timeout s \<Longrightarrow>
     dashboard_count_loop h startTime timeout v s = (Inr (TimedOut, v), s)"
  by (subst dashboard_count_loop.simps) simp

lemma dashboard_loop_clock:
  "clock (snd (dashboard_count_loop h startTime timeout v s))
     \<le> max (clock s) (startTime + timeout + 1000)"
proof (induction h startTime timeout v s rule: dashboard_count_loop.induct)
  case (1 h startTime timeout v s)
  let ?B = "startTime + timeout + 1000"
  show ?case
  proof (cases "attempt v < 5 \<and> \<not> checkTimeout startTime timeout s
                \<and> \<not> (currentCardCount v = previousCardCount v \<and> stableCount v + 1 \<ge> 2)")
    case False
    then have "snd (dashboard_count_loop h startTime timeout v s) = s"
      by (subst dashboard_count_loop.simps) auto
    then show ?thesis by simp
  next
    case True
    then have a: "attempt v < 5" and nt: "\<not> checkTimeout startTime timeout s"
      and go: "\<not> (currentCardCount v = previousCardCount v \<and> stableCount v + 1 \<ge> 2)"
      by blast+
    obtain s1 where s1: "wait h 1000 s = (Inr (), s1)" "clock s1 \<le> clock s + max 0 (min 1000 5000)"
      using wait_step by blast
    from nt have "clock s \<le> startTime + timeout"
      by (simp add: checkTimeout_def Let_def)
    with s1(2) have c1: "clock s1 \<le> ?B" by simp
    let ?s2 = "s1\<lparr>queries := queries s1 + 1\<rparr>"
    show ?thesis
    proof (cases "query_all h dashboardCardSelector (queries s1)")
      case (Inl e)
      then have "page_query_all h dashboardCardSelector s1 = (Inl e, ?s2)"
        by (simp add: page_query_all_def)
      then have "snd (dashboard_count_loop h startTime timeout v s) = ?s2"
        using a nt go s1 by (subst dashboard_count_loop.simps) auto
      with c1 show ?thesis by simp
    next
      case (Inr cs)
      let ?v = "(dashboard_compare v)\<lparr>currentCardCount := length cs, attempt := attempt v + 1\<rparr>"
      have q: "page_query_all h dashboardCardSelector s1 = (Inr cs, ?s2)"
        using Inr by (simp add: page_query_all_def)
      have unfold: "dashboard_count_loop h startTime timeout v s
                    = dashboard_count_loop h startTime timeout ?v ?s2"
        using a nt go s1 q by (subst dashboard_count_loop.simps) auto
      have "clock (snd (dashboard_count_loop h startTime timeout ?v ?s2)) \<le> max (clock ?s2) ?B"
        using "1.IH"[OF a nt go _ _ _ _] s1 q by simp
      with c1 unfold show ?thesis by simp
    qed
  qed
qed

lemma await_present: "0 \<le> t \<Longrightarrow> await_within (Some 0) t s = (Inr (), s)"
  by (simp add: await_within_def advance_def)

lemma portal_ignores_timeout:
  assumes "selector_after h mainContentSelector = Some 0"
    and "selector_after h cardsContainerSelector = Some 0"
    and "selector_after h cardSelector = Some 0"
    and "0 \<le> t1" and "0 \<le> t2"
  shows "waitForPortalPageLoad h t1 s = waitForPortalPageLoad h t2 s"
  using assms
  by (simp add: waitForPortalPageLoad_def page_waitForSelector_def try_catch_def seq_def bind_def
      await_present)

text \<open>
  C5 (as amended). The clock counts the time spent waiting (pauses and timeouts).
  \<open>waitForDashboardPageLoad\<close> compares the elapsed time with its budget at the head of
  every pass of its card-count loop: once the budget is exceeded there, the loop is left
  at once, whatever the stability counter is, and no further poll is made; so a loop that
  is entered within the budget ends no later than one pause of 1000 ms after it. The loop
  of \<open>waitForPortalPageLoad\<close>, whose timeout is "used for individual wait operations",
  never looks at the clock: once its three selectors are found at once, what it does is
  the same for every timeout.
\<close>

theorem budget_checked_at_loop_head_only:
  "(attempt v < 5 \<and> checkTimeout startTime timeout s
      \<longrightarrow> dashboard_count_loop h startTime timeout v s = (Inr (TimedOut, v), s))
   \<and> (clock s \<le> startTime + timeout + 1000
      \<longrightarrow> clock (snd (dashboard_count_loop h startTime timeout v s)) \<le> startTime + timeout + 1000)
   \<and> (selector_after h' mainContentSelector = Some 0
        \<and> selector_after h' cardsContainerSelector = Some 0
        \<and> selector_after h' cardSelector = Some 0 \<and> 0 \<le> t1 \<and> 0 \<le> t2
      \<longrightarrow> waitForPortalPageLoad h' t1 s' = waitForPortalPageLoad h' t2 s')"
proof -
  have "clock s \<le> startTime + timeout + 1000
      \<longrightarrow> clock (snd (dashboard_count_loop h startTime timeout v s)) \<le> startTime + timeout + 1000"
    using dashboard_loop_clock[of h startTime timeout v s] by (auto simp: max_def split: if_splits)
  then show ?thesis
    using dashboard_loop_timed_out[of v startTime timeout s h]
      portal_ignores_timeout[of h' t1 t2 s']
    by blast
qed

theorem budget_checked_at_loop_head_only_witness:
  "dashboard_count_loop blank_page 0 1000 ((initial_vars 4)\<lparr>stableCount := 1\<rparr>) (world0\<lparr>clock := 5000\<rparr>)
     = (Inr (TimedOut, (initial_vars 4)\<lparr>stableCount := 1\<rparr>), world0\<lparr>clock := 5000\<rparr>)
   \<and> clock (snd (dashboard_count_loop (counts_page (\<lambda>k. k)) 0 2500 (initial_vars 7) world0)) \<le> 3500
   \<and> waitForPortalPageLoad (counts_page (\<lambda>k. 1 + k mod 2)) 3000 world0
     = waitForPortalPageLoad (counts_page (\<lambda>k. 1 + k mod 2)) 30000 world0"
proof -
  have a: "attempt ((initial_vars 4)\<lparr>stableCount := 1\<rparr>) < 5
           \<and> checkTimeout 0 1000 (world0\<lparr>clock := 5000\<rparr>)"
    by (simp add: initial_vars_def checkTimeout_def world0_def)
  have b: "selector_after (counts_page (\<lambda>k. 1 + k mod 2)) mainContentSelector = Some 0
        \<and> selector_after (counts_page (\<lambda>k. 1 + k mod 2)) cardsContainerSelector = Some 0
        \<and> selector_after (counts_page (\<lambda>k. 1 + k mod 2)) cardSelector = Some 0
        \<and> (0::rat) \<le> 3000 \<and> (0::rat) \<le> 30000"
    by (simp add: counts_page_def blank_page_def)
  have c: "clock world0 \<le> 0 + 2500 + 1000"
    by (simp add: world0_def)
  from budget_checked_at_loop_head_only[of "(initial_vars 4)\<lparr>stableCount := 1\<rparr>" 0 1000
      "world0\<lparr>clock := 5000\<rparr>" blank_page "counts_page (\<lambda>k. 1 + k mod 2)" 3000 30000 world0] a b
  have 1: "dashboard_count_loop blank_page 0 1000 ((initial_vars 4)\<lparr>stableCount := 1\<rparr>) (world0\<lparr>clock := 5000\<rparr>)
     = (Inr (TimedOut, (initial_vars 4)\<lparr>stableCount := 1\<rparr>), world0\<lparr>clock := 5000\<rparr>)"
    and 3: "waitForPortalPageLoad (counts_page (\<lambda>k. 1 + k mod 2)) 3000 world0
     = waitForPortalPageLoad (counts_page (\<lambda>k. 1 + k mod 2)) 30000 world0"
    by blast+
  from budget_checked_at_loop_head_only[of "initial_vars 7" 0 2500 world0 "counts_page (\<lambda>k. k)"] c
  have 2: "clock (snd (dashboard_count_loop (counts_page (\<lambda>k. k)) 0 2500 (initial_vars 7) world0)) \<le> 3500"
    by simp
  from 1 2 3 show ?thesis by blast
qed

text \<open>
  C5 as stated fails. With a budget of 3000 ms, its three selectors found at once and a
  card count that keeps changing, \<open>waitForPortalPageLoad\<close> makes all ten polls, pausing
  ten times 1000 ms and once 2000 ms: no transition on elapsed time takes place.
\<close>

theorem portal_wait_overruns_its_budget:
  "3000 + 1000 < clock (snd (waitForPortalPageLoad (counts_page (\<lambda>k. 1 + k mod 2)) 3000 world0)) - clock world0
   \<and> queries (snd (waitForPortalPageLoad (counts_page (\<lambda>k. 1 + k mod 2)) 3000 world0)) = 10"
  by code_simp

section \<open>The card resolver\<close>



lemma no_throw_DashboardPage_findCard: "no_throw (DashboardPage_findCard h cardName)"
  unfolding DashboardPage_findCard_def
  by (intro no_throw_try_catch no_throw_seq no_throw_takeScreenshot no_throw_ret)

lemma no_throw_PortalPage_findCard: "no_throw (PortalPage_findCard h cardName)"
  unfolding PortalPage_findCard_def PortalPage_findCard_body_def
  by (intro no_throw_seq no_throw_waitForPortalPageLoad no_throw_try_catch
        no_throw_takeScreenshot no_throw_ret)

lemma first_card_no_hit:
  assumes "\<forall>c\<in>set cs. test c \<noteq> Inr True"
  shows "fst (first_card h test cardName cs s) = Inr None \<or> isl (fst (first_card h test cardName cs s))"
  using assms
proof (induction cs arbitrary: s)
  case Nil
  then show ?case by (simp add: fst_ret)
next
  case (Cons c cs)
  show ?case
  proof (cases "test c")
    case (Inl e)
    then show ?thesis by (simp add: fst_bind fst_of_answer)
  next
    case (Inr b)
    with Cons.prems have "b = False" by auto
    with Inr Cons show ?thesis by (simp add: fst_bind fst_of_answer)
  qed
qed

lemma null_on_error:
  assumes "fst (m s) = Inr None \<or> isl (fst (m s))"
  shows "fst (try_catch m (\<lambda>error. seq (takeScreenshot h path) (ret None)) s) = Inr None"
  using assms
  by (cases "fst (m s)") (auto simp: fst_try_catch fst_seq takeScreenshot_result fst_ret)

lemma resolve_no_match:
  assumes "no_match h titleSelector cardName cs"
    and "\<And>z. fst (rest z) = Inr None \<or> isl (fst (rest z))"
  shows "fst (bind (first_card h (title_hit h titleSelector cardName) cardName cs) (\<lambda>byTitle.
             case byTitle of
               Some card_el \<Rightarrow> ret (Some (ElementHandle card_el))
             | None \<Rightarrow>
                 bind (first_card h (content_hit h cardName) cardName cs) (\<lambda>byContent.
                   case byContent of
                     Some card_el \<Rightarrow> ret (Some (ElementHandle card_el))
                   | None \<Rightarrow> rest)) s) = Inr None
       \<or> isl (fst (bind (first_card h (title_hit h titleSelector cardName) cardName cs) (\<lambda>byTitle.
             case byTitle of
               Some card_el \<Rightarrow> ret (Some (ElementHandle card_el))
             | None \<Rightarrow>
                 bind (first_card h (content_hit h cardName) cardName cs) (\<lambda>byContent.
                   case byContent of
                     Some card_el \<Rightarrow> ret (Some (ElementHandle card_el))
                   | None \<Rightarrow> rest)) s))"
proof -
  have t: "\<And>s. fst (first_card h (title_hit h titleSelector cardName) cardName cs s) = Inr None
        \<or> isl (fst (first_card h (title_hit h titleSelector cardName) cardName cs s))"
    using assms(1) by (intro first_card_no_hit) (simp add: no_match_def)
  have c: "\<And>s. fst (first_card h (content_hit h cardName) cardName cs s) = Inr None
        \<or> isl (fst (first_card h (content_hit h cardName) cardName cs s))"
    using assms(1) by (intro first_card_no_hit) (simp add: no_match_def)
  let ?s1 = "snd (first_card h (title_hit h titleSelector cardName) cardName cs s)"
  from t[of s] show ?thesis
  proof
    assume "isl (fst (first_card h (title_hit h titleSelector cardName) cardName cs s))"
    then show ?thesis by (auto simp: fst_bind isl_def)
  next
    assume t0: "fst (first_card h (title_hit h titleSelector cardName) cardName cs s) = Inr None"
    from c[of ?s1] show ?thesis
    proof
      assume "isl (fst (first_card h (content_hit h cardName) cardName cs ?s1))"
      with t0 show ?thesis by (auto simp: fst_bind isl_def)
    next
      assume "fst (first_card h (content_hit h cardName) cardName cs ?s1) = Inr None"
      with t0 assms(2) show ?thesis by (simp add: fst_bind)
    qed
  qed
qed

lemma text_search_no_match:
  assumes "getByText_regex h cardName = Inr [] \<or> isl (getByText_regex h cardName)"
  shows "fst (page_text_search h cardName z) = Inr None \<or> isl (fst (page_text_search h cardName z))"
  using assms unfolding page_text_search_def
  by (auto simp: fst_bind fst_of_answer fst_seq takeScreenshot_result fst_ret isl_def)

lemma state_free_page_text_search: "state_free (page_text_search h cardName)"
  unfolding page_text_search_def
  by (intro state_free_bind state_free_of_answer)
     (simp add: state_free_seq state_free_scroll state_free_takeScreenshot state_free_ret
        split: list.splits)

lemma state_free_resolve:
  assumes "\<And>v. state_free (rest v)"
  shows "state_free (bind (first_card h t1 cardName cards) (\<lambda>byTitle.
             case byTitle of
               Some card_el \<Rightarrow> ret (Some (ElementHandle card_el))
             | None \<Rightarrow>
                 bind (first_card h t2 cardName cards) (\<lambda>byContent.
                   case byContent of
                     Some card_el \<Rightarrow> ret (Some (ElementHandle card_el))
                   | None \<Rightarrow> rest ())))"
  by (intro state_free_bind state_free_first_card)
     (auto simp: state_free_ret assms intro!: state_free_bind state_free_first_card split: option.splits)

lemma state_free_DashboardPage_findCard:
  assumes "\<forall>k. query_all h dashboardCardSelector k = query_all h dashboardCardSelector 0"
  shows "state_free (DashboardPage_findCard h cardName)"
  unfolding DashboardPage_findCard_def
  by (intro state_free_try_catch state_free_bind state_free_page_query_all[OF assms]
        state_free_resolve[where rest = "\<lambda>_. page_text_search h cardName"]
        state_free_page_text_search state_free_seq state_free_takeScreenshot state_free_ret)

lemma state_free_waitForPortalPageLoad: "state_free (waitForPortalPageLoad h timeout)"
  by (simp add: state_free_def fst_waitForPortalPageLoad)

lemma state_free_PortalPage_findCard:
  assumes "\<forall>k. query_all h cardSelector k = query_all h cardSelector 0"
  shows "state_free (PortalPage_findCard h cardName)"
  unfolding PortalPage_findCard_def PortalPage_findCard_body_def
  by (intro state_free_seq state_free_waitForPortalPageLoad state_free_try_catch state_free_bind
        state_free_page_query_all[OF assms]
        state_free_resolve[where rest = "\<lambda>_. seq (takeScreenshot h ''card-not-found.png'') (ret None)"]
        state_free_seq state_free_takeScreenshot state_free_ret)

lemma state_free_PortalPage_findCard_body:
  assumes "\<forall>k. query_all h cardSelector k = query_all h cardSelector 0"
  shows "state_free (PortalPage_findCard_body h cardName)"
  unfolding PortalPage_findCard_body_def
  by (intro state_free_try_catch state_free_bind
        state_free_page_query_all[OF assms]
        state_free_resolve[where rest = "\<lambda>_. seq (takeScreenshot h ''card-not-found.png'') (ret None)"]
        state_free_seq state_free_takeScreenshot state_free_ret)

lemma PortalPage_findCard_static:
  assumes "\<forall>k. query_all h cardSelector k = query_all h cardSelector 0"
  shows "fst (PortalPage_findCard h cardName s) = fst (PortalPage_findCard_body h cardName world0)"
  using state_free_PortalPage_findCard_body[OF assms, of cardName]
  by (simp add: PortalPage_findCard_def fst_seq fst_waitForPortalPageLoad state_free_def)

lemma cards_page_static:
  "\<forall>k. query_all (cards_page cs) selector k = query_all (cards_page cs) selector 0"
  by (simp add: cards_page_def blank_page_def)







text \<open>
  C4. \<open>findCard\<close> of either page never throws: whatever the page answers, it returns a
  handle or \<open>null\<close>. A rejected element query gives \<open>null\<close>, and so does a name that no
  card matches (for \<open>DashboardPage\<close>: that the text search does not match either),
  whether the probes answer or are rejected.
\<close>

theorem findCard_never_throws:
  "(\<exists>r. fst (PortalPage_findCard h cardName s) = Inr r)
   \<and> (\<exists>r. fst (DashboardPage_findCard h cardName s) = Inr r)
   \<and> (isl (query_all h dashboardCardSelector (queries s))
        \<longrightarrow> fst (DashboardPage_findCard h cardName s) = Inr None)
   \<and> ((\<forall>k. query_all h cardSelector k = Inr cs) \<and> no_match h portal_cardTitleSelector cardName cs
        \<longrightarrow> fst (PortalPage_findCard h cardName s) = Inr None)
   \<and> (query_all h dashboardCardSelector (queries s) = Inr ds
        \<and> no_match h dashboard_cardTitleSelector cardName ds
        \<and> (getByText_regex h cardName = Inr [] \<or> isl (getByText_regex h cardName))
        \<longrightarrow> fst (DashboardPage_findCard h cardName s) = Inr None)"
proof (intro conjI impI)
  show "\<exists>r. fst (PortalPage_findCard h cardName s) = Inr r"
    using no_throw_PortalPage_findCard[of h cardName] by (simp add: no_throw_def)
  show "\<exists>r. fst (DashboardPage_findCard h cardName s) = Inr r"
    using no_throw_DashboardPage_findCard[of h cardName] by (simp add: no_throw_def)
next
  assume "isl (query_all h dashboardCardSelector (queries s))"
  then show "fst (DashboardPage_findCard h cardName s) = Inr None"
    unfolding DashboardPage_findCard_def
    by (intro null_on_error) (auto simp: fst_bind fst_page_query_all isl_def)
next
  assume a: "(\<forall>k. query_all h cardSelector k = Inr cs) \<and> no_match h portal_cardTitleSelector cardName cs"
  have r: "\<And>z. fst (seq (takeScreenshot h ''card-not-found.png'') (ret None) z) = Inr (None :: found option)
           \<or> isl (fst (seq (takeScreenshot h ''card-not-found.png'') (ret (None :: found option)) z))"
    by (simp add: fst_seq takeScreenshot_result fst_ret)
  show "fst (PortalPage_findCard h cardName s) = Inr None"
    unfolding PortalPage_findCard_def PortalPage_findCard_body_def fst_seq fst_waitForPortalPageLoad sum.case
    by (intro null_on_error)
       (use a resolve_no_match[OF _ r, of h portal_cardTitleSelector cardName cs] in
         \<open>simp add: fst_bind[of "page_query_all h cardSelector"] fst_page_query_all\<close>)
next
  assume a: "query_all h dashboardCardSelector (queries s) = Inr ds
        \<and> no_match h dashboard_cardTitleSelector cardName ds
        \<and> (getByText_regex h cardName = Inr [] \<or> isl (getByText_regex h cardName))"
  then have r: "\<And>z. fst (page_text_search h cardName z) = Inr None \<or> isl (fst (page_text_search h cardName z))"
    by (intro text_search_no_match) simp
  show "fst (DashboardPage_findCard h cardName s) = Inr None"
    unfolding DashboardPage_findCard_def
    by (intro null_on_error)
       (use a resolve_no_match[OF _ r, of h dashboard_cardTitleSelector cardName ds] in
         \<open>simp add: fst_bind[of "page_query_all h dashboardCardSelector"] fst_page_query_all\<close>)
qed

theorem findCard_never_throws_witness:
  "fst (DashboardPage_findCard (blank_page\<lparr>query_all := (\<lambda>_ _. Inl DetachedError)\<rparr>) ''Nonexistent Card'' world0)
     = Inr None
   \<and> fst (PortalPage_findCard (cards_page [hidden_card, shown_card]) ''Nonexistent Card'' world0) = Inr None
   \<and> fst (DashboardPage_findCard (cards_page [hidden_card, shown_card]) ''Nonexistent Card'' world0) = Inr None"
proof -
  have a: "isl (query_all (blank_page\<lparr>query_all := (\<lambda>_ _. Inl DetachedError)\<rparr>) dashboardCardSelector (queries world0))"
    by simp
  have n: "no_match (cards_page [hidden_card, shown_card]) portal_cardTitleSelector ''Nonexistent Card'' [hidden_card, shown_card]"
    "no_match (cards_page [hidden_card, shown_card]) dashboard_cardTitleSelector ''Nonexistent Card'' [hidden_card, shown_card]"
    by code_simp+
  have q: "\<forall>k. query_all (cards_page [hidden_card, shown_card]) cardSelector k
             = Inr [hidden_card, shown_card]"
    "query_all (cards_page [hidden_card, shown_card]) dashboardCardSelector (queries world0)
             = Inr [hidden_card, shown_card]"
    "getByText_regex (cards_page [hidden_card, shown_card]) ''Nonexistent Card'' = Inr []"
    by (simp_all add: cards_page_def blank_page_def)
  from findCard_never_throws[of "blank_page\<lparr>query_all := (\<lambda>_ _. Inl DetachedError)\<rparr>"
      "''Nonexistent Card''" world0] a
  have 1: "fst (DashboardPage_findCard (blank_page\<lparr>query_all := (\<lambda>_ _. Inl DetachedError)\<rparr>) ''Nonexistent Card'' world0)
     = Inr None" by blast
  from findCard_never_throws[of "cards_page [hidden_card, shown_card]" "''Nonexistent Card''" world0
      "[hidden_card, shown_card]" "[hidden_card, shown_card]"] n q
  have 2: "fst (PortalPage_findCard (cards_page [hidden_card, shown_card]) ''Nonexistent Card'' world0) = Inr None"
    and 3: "fst (DashboardPage_findCard (cards_page [hidden_card, shown_card]) ''Nonexistent Card'' world0) = Inr None"
    by blast+
  from 1 2 3 show ?thesis by blast
qed

text \<open>
  C8. On a document that answers every query of the cards in the same way, calling
  \<open>findCard\<close> again in the world the first call left (after its scrolling, its
  screenshots and, for \<open>PortalPage\<close>, its waiting) returns the same result: the same kind
  of handle for the same element of the document, or \<open>null\<close> again.
\<close>

theorem findCard_idempotent:
  assumes "\<forall>k. query_all h cardSelector k = query_all h cardSelector 0"
    and "\<forall>k. query_all h' dashboardCardSelector k = query_all h' dashboardCardSelector 0"
  shows "fst (PortalPage_findCard h cardName (snd (PortalPage_findCard h cardName s)))
           = fst (PortalPage_findCard h cardName s)
       \<and> fst (DashboardPage_findCard h' cardName (snd (DashboardPage_findCard h' cardName s')))
           = fst (DashboardPage_findCard h' cardName s')"
  using state_free_PortalPage_findCard[OF assms(1), of cardName]
    state_free_DashboardPage_findCard[OF assms(2), of cardName]
  unfolding state_free_def by blast

theorem findCard_idempotent_witness:
  "fst (PortalPage_findCard (cards_page [hidden_card, shown_card]) ''international''
          (snd (PortalPage_findCard (cards_page [hidden_card, shown_card]) ''international'' world0)))
     = Inr (Some (ElementHandle shown_card))
   \<and> fst (DashboardPage_findCard (cards_page [hidden_card, shown_card]) ''international''
          (snd (DashboardPage_findCard (cards_page [hidden_card, shown_card]) ''international'' world0)))
     = Inr (Some (ElementHandle shown_card))"
proof -
  have q: "\<forall>k. query_all (cards_page [hidden_card, shown_card]) cardSelector k
             = query_all (cards_page [hidden_card, shown_card]) cardSelector 0"
    "\<forall>k. query_all (cards_page [hidden_card, shown_card]) dashboardCardSelector k
             = query_all (cards_page [hidden_card, shown_card]) dashboardCardSelector 0"
    by (simp_all add: cards_page_def blank_page_def)
  have once: "fst (PortalPage_findCard (cards_page [hidden_card, shown_card]) ''international'' world0)
     = Inr (Some (ElementHandle shown_card))"
    "fst (DashboardPage_findCard (cards_page [hidden_card, shown_card]) ''international'' world0)
     = Inr (Some (ElementHandle shown_card))"
    unfolding PortalPage_findCard_static[OF cards_page_static] by code_simp+
  from findCard_idempotent[OF q, of "''international''" world0 world0] once
  show ?thesis by simp
qed

section \<open>The click with fallbacks\<close>

text \<open>
  C3 (as amended). The click of a menu item in \<open>clickPortalFeatures\<close> makes at most three
  attempts, in the fixed order forced click, script click, dispatched \<open>MouseEvent\<close>, each
  at most once, and stops at the first that is not rejected. On a node without a
  \<open>click\<close> method the second attempt already dispatches the synthetic event. The value
  returned is \<open>true\<close> whichever attempt went through: it does not tell which one (the
  failed ones are only logged to the console); when all three are rejected the error of
  the last one propagates to the enclosing \<open>try\<close> of \<open>clickPortalFeatures\<close>.
\<close>

theorem click_attempts_in_order:
  "calls (snd (click_menu_item el s))
     = (case force_click_fault (ans el) of
          None \<Rightarrow> [ForceClick (eid el)]
        | Some e1 \<Rightarrow>
           (case script_fault (ans el) of
              None \<Rightarrow> [if has_click_method (ans el) then ScriptClick (eid el) else Dispatch (eid el),
                        ForceClick (eid el)]
            | Some e2 \<Rightarrow> [Dispatch (eid el),
                          if has_click_method (ans el) then ScriptClick (eid el) else Dispatch (eid el),
                          ForceClick (eid el)])) @ calls s
   \<and> fst (click_menu_item el s)
     = (case force_click_fault (ans el) of
          None \<Rightarrow> Inr True
        | Some e1 \<Rightarrow>
           (case script_fault (ans el) of
              None \<Rightarrow> Inr True
            | Some e2 \<Rightarrow> (case dispatch_fault (ans el) of None \<Rightarrow> Inr True | Some e3 \<Rightarrow> Inl e3)))"
  by (simp add: click_menu_item_def click_with_fallbacks_def seq_def bind_def try_catch_def
      click_force_def evaluate_click_def evaluate_dispatch_def record_call_def ret_def Let_def
      split: option.splits)

theorem click_attempts_in_order_witness:
  "calls (snd (click_menu_item svg_item world0)) = [Dispatch 2, ForceClick 2]
   \<and> fst (click_menu_item svg_item world0) = Inr True"
  using click_attempts_in_order[of svg_item world0]
  by (simp add: svg_item_def quiet_def world0_def)

text \<open>
  C3 as stated fails. An ordinary node takes the forced click, an SVG node that rejects it
  gets the synthetic event; the value returned is the same \<open>true\<close> in both cases.
\<close>

theorem click_result_hides_strategy:
  "fst (click_menu_item (plain_element 1) world0) = Inr True
   \<and> calls (snd (click_menu_item (plain_element 1) world0)) = [ForceClick 1]
   \<and> fst (click_menu_item svg_item world0) = Inr True
   \<and> calls (snd (click_menu_item svg_item world0)) = [Dispatch 2, ForceClick 2]"
  by code_simp

section \<open>Switching to the newest tab\<close>

text \<open>
  C6. \<open>waitForNavigationAfterButtonClick\<close> never throws. When the browser context lists
  more than one page and the last of them reaches \<open>domcontentloaded\<close> within 10000 ms,
  it returns that page, the most recently opened one; in every other case (a single page,
  a timeout or any other error, also of \<open>context.pages()\<close>) it returns the current page.
\<close>

theorem newest_page_or_current:
  "fst (waitForNavigationAfterButtonClick h context s)
     = Inr (case context_pages context of
              Inl e \<Rightarrow> h
            | Inr pages \<Rightarrow>
                if length pages > 1
                   \<and> (case loadState_after (last pages) ''domcontentloaded'' of
                         Some d \<Rightarrow> d \<le> 10000
                       | None \<Rightarrow> False)
                then last pages else h)"
proof (cases "context_pages context")
  case (Inl e)
  then show ?thesis
    by (simp add: waitForNavigationAfterButtonClick_def fst_try_catch fst_bind fst_of_answer fst_ret)
next
  case (Inr pages)
  have w: "fst (waitForLoadState h ''networkidle'' 10000 z) = Inr True
         \<or> fst (waitForLoadState h ''networkidle'' 10000 z) = Inr False" for z
    by (simp add: waitForLoadState_def fst_try_catch fst_seq fst_ret split: sum.splits)
  show ?thesis
  proof (cases "length pages > 1")
    case False
    with Inr w[of s] show ?thesis
      by (auto simp: waitForNavigationAfterButtonClick_def fst_try_catch fst_bind fst_of_answer
          fst_seq fst_ret of_answer_def)
  next
    case True
    then have l: "pages ! (length pages - 1) = last pages"
      by (cases pages) (auto simp: last_conv_nth)
    with Inr True show ?thesis
      by (simp add: waitForNavigationAfterButtonClick_def fst_try_catch fst_bind fst_of_answer
          fst_seq fst_ret of_answer_def page_waitForLoadState_def await_within_def Let_def
          split: option.splits)
  qed
qed

theorem newest_page_or_current_witness:
  "fst (waitForNavigationAfterButtonClick blank_page \<lparr>context_pages = Inr [blank_page, second_tab]\<rparr> world0)
     = Inr second_tab
   \<and> fst (waitForNavigationAfterButtonClick blank_page \<lparr>context_pages = Inr [blank_page]\<rparr> world0)
     = Inr blank_page
   \<and> fst (waitForNavigationAfterButtonClick blank_page \<lparr>context_pages = Inl TargetClosedError\<rparr> world0)
     = Inr blank_page"
  using newest_page_or_current[of blank_page "\<lparr>context_pages = Inr [blank_page, second_tab]\<rparr>" world0]
    newest_page_or_current[of blank_page "\<lparr>context_pages = Inr [blank_page]\<rparr>" world0]
    newest_page_or_current[of blank_page "\<lparr>context_pages = Inl TargetClosedError\<rparr>" world0]
  by (simp add: second_tab_def)

section \<open>Missing configuration\<close>

text \<open>
  C7 (the code at the failing input). With no \<open>url\<close>, \<open>Username\<close> or \<open>Password\<close> in the
  environment the tests go on with the built-in address and credentials; the check that
  would raise "Required environment variables ... must be set" can never fire, for any
  environment.
\<close>

theorem defaults_replace_missing_configuration:
  "event_signup_credentials (\<lambda>name. None)
     = Inr (''https://experience-dev-devinternal.elluciancloud.com/ebuildcanadaglobal/'',
            ''vberg'', ''111111'')
   \<and> portal_login_credentials (\<lambda>name. None)
     = Inr (''https://experience-dev-devinternal.elluciancloud.com/ebuildcanadaglobal/'',
            ''vberg'', ''111111'')
   \<and> \<not> isl (event_signup_credentials env) \<and> \<not> isl (portal_login_credentials env)"
  by (simp add: event_signup_credentials_def portal_login_credentials_def or_default_def Let_def
      split: option.splits)

section \<open>Which operations throw an error again\<close>



























































end
